theory Spec2Isabelle
  imports Main "HOL-Library.Multiset"
begin

section \<open>Data model\<close>

text \<open>
  The enumerations of \<^verbatim>\<open>constants/payment.ts\<close>, the row interfaces of
  \<^verbatim>\<open>repositories/PaymentRepository.ts\<close> and the payload of
  \<^verbatim>\<open>types/paymentTypes.ts\<close>. Identifiers are opaque strings, amounts are
  integers (the columns are \<^verbatim>\<open>INTEGER\<close>, the schema of the payload is
  \<^verbatim>\<open>z.number().int()\<close>).
\<close>

datatype PaymentType = PaymentReceived

datatype InvoiceStatus = Sent | PartiallyPaid | Paid

record PaymentRecord =
  event_id :: string
  invoice_id :: string
  amount_cents :: int
  payment_type :: PaymentType

text \<open>
  \<^verbatim>\<open>InvoiceRecord\<close>: the field \<^verbatim>\<open>id\<close> is \<open>inv_id\<close> here, since \<open>id\<close> is
  the identity function of HOL.
\<close>

record InvoiceRecord =
  inv_id :: string
  total_cents :: int
  status :: InvoiceStatus

text \<open>
  The values that \<^verbatim>\<open>amount_cents\<close> can hold when the service runs: a number,
  which is an integer amount or \<^verbatim>\<open>NaN\<close> (a value of the type
  \<^verbatim>\<open>number\<close> like any other), or, for a payload that does not keep to its type,
  \<^verbatim>\<open>undefined\<close> (the property is missing) or \<^verbatim>\<open>null\<close>.
\<close>

datatype js_amount = Undefined | JsNull | NaN | Cents int

text \<open>
  \<^verbatim>\<open>PaymentPayload\<close> as the service meets it at run time: the destructuring
  \<^verbatim>\<open>const { event_id, invoice_id, amount_cents } = payload\<close> yields
  \<^verbatim>\<open>undefined\<close> for a property that is missing. For the two identifiers
  \<open>None\<close> is \<^verbatim>\<open>undefined\<close> or \<^verbatim>\<open>null\<close>, which the code does not
  tell apart.
\<close>

record PaymentPayload =
  payload_event_id :: "string option"
  payload_type :: PaymentType
  payload_invoice_id :: "string option"
  payload_amount_cents :: js_amount

text \<open>The errors of \<^verbatim>\<open>errors/customErrors.ts\<close> that the service throws, and
  \<open>StorageError\<close> for an error thrown by a query of the database client.\<close>

datatype error = BadRequestError string | NotFoundError string | StorageError

text \<open>The object \<^verbatim>\<open>{ status, message }\<close> that \<^verbatim>\<open>handlePayment\<close> returns.\<close>

datatype response = Response (http_status: nat) (message: string)

section \<open>The database as the repository sees it\<close>

text \<open>
  The statements that reach the connection, in the order they are sent. The two tables
  hold their rows in insertion order; \<open>statements\<close> is the log of the connection.
\<close>

datatype stmt =
    BEGIN
  | SELECT_INVOICE string
  | INSERT_PAYMENT string
  | SELECT_TOTAL_PAID string
  | UPDATE_STATUS string InvoiceStatus
  | COMMIT
  | ROLLBACK

record world =
  invoices :: "InvoiceRecord list"
  payments :: "PaymentRecord list"
  statements :: "stmt list"

text \<open>
  Each repository method sends one query, and a query of the client may throw. Which of
  them throw is a parameter \<open>fault\<close> of the model.
\<close>

datatype repo_op = GetInvoiceById | InsertPayment | GetTotalPaid | UpdateInvoiceStatus

definition no_fault :: "repo_op \<Rightarrow> bool" where
  "no_fault = (\<lambda>_. False)"

definition send :: "stmt \<Rightarrow> world \<Rightarrow> world" where
  "send q w = w\<lparr>statements := statements w @ [q]\<rparr>"

text \<open>\<^verbatim>\<open>SELECT id, total_cents, status FROM invoices WHERE id = $1 FOR UPDATE\<close>;
  \<^verbatim>\<open>null\<close> when no row matches, the first row otherwise.\<close>

definition getInvoiceById ::
  "(repo_op \<Rightarrow> bool) \<Rightarrow> string \<Rightarrow> world \<Rightarrow> (error + InvoiceRecord option) \<times> world" where
  "getInvoiceById fault invoiceId w =
     (let w1 = send (SELECT_INVOICE invoiceId) w in
      if fault GetInvoiceById then (Inl StorageError, w1)
      else (Inr (find (\<lambda>i. inv_id i = invoiceId) (invoices w1)), w1))"

text \<open>
  \<^verbatim>\<open>INSERT INTO payments ... ON CONFLICT (event_id) DO NOTHING RETURNING *\<close>:
  \<^verbatim>\<open>null\<close> when a row with the event identifier exists, the new row otherwise. The
  column \<^verbatim>\<open>amount_cents\<close> is \<^verbatim>\<open>INTEGER NOT NULL\<close> (schema.sql), so the
  statement fails for an amount that is \<^verbatim>\<open>undefined\<close> or \<^verbatim>\<open>null\<close>
  (both sent as \<^verbatim>\<open>NULL\<close>) or \<^verbatim>\<open>NaN\<close> (not an integer).
\<close>

definition insertPayment ::
  "(repo_op \<Rightarrow> bool) \<Rightarrow> string \<Rightarrow> string \<Rightarrow> js_amount \<Rightarrow> PaymentType \<Rightarrow> world
     \<Rightarrow> (error + PaymentRecord option) \<times> world" where
  "insertPayment fault eid iid amount ty w =
     (let w1 = send (INSERT_PAYMENT eid) w in
      if fault InsertPayment then (Inl StorageError, w1)
      else (case amount of
              Cents a \<Rightarrow>
                if eid \<in> set (map event_id (payments w1)) then (Inr None, w1)
                else (let row = \<lparr>event_id = eid, invoice_id = iid, amount_cents = a,
                                  payment_type = ty\<rparr>
                      in (Inr (Some row), w1\<lparr>payments := payments w1 @ [row]\<rparr>))
            | _ \<Rightarrow> (Inl StorageError, w1)))"

text \<open>\<^verbatim>\<open>SELECT SUM(amount_cents) ... WHERE invoice_id = $1\<close>, and
  \<^verbatim>\<open>Number(total_paid || 0)\<close>: the sum over no row is 0.\<close>

definition total_paid :: "PaymentRecord list \<Rightarrow> string \<Rightarrow> int" where
  "total_paid rows invoiceId =
     sum_list (map amount_cents (filter (\<lambda>p. invoice_id p = invoiceId) rows))"

definition getTotalPaid ::
  "(repo_op \<Rightarrow> bool) \<Rightarrow> string \<Rightarrow> world \<Rightarrow> (error + int) \<times> world" where
  "getTotalPaid fault invoiceId w =
     (let w1 = send (SELECT_TOTAL_PAID invoiceId) w in
      if fault GetTotalPaid then (Inl StorageError, w1)
      else (Inr (total_paid (payments w1) invoiceId), w1))"

text \<open>\<^verbatim>\<open>UPDATE invoices SET status = $1, updated_at = NOW() WHERE id = $2\<close>.\<close>

definition set_status :: "string \<Rightarrow> InvoiceStatus \<Rightarrow> InvoiceRecord list \<Rightarrow> InvoiceRecord list" where
  "set_status invoiceId st rows =
     map (\<lambda>i. if inv_id i = invoiceId then i\<lparr>status := st\<rparr> else i) rows"

definition updateInvoiceStatus ::
  "(repo_op \<Rightarrow> bool) \<Rightarrow> string \<Rightarrow> InvoiceStatus \<Rightarrow> world \<Rightarrow> (error + unit) \<times> world" where
  "updateInvoiceStatus fault invoiceId st w =
     (let w1 = send (UPDATE_STATUS invoiceId st) w in
      if fault UpdateInvoiceStatus then (Inl StorageError, w1)
      else (Inr (), w1\<lparr>invoices := set_status invoiceId st (invoices w1)\<rparr>))"

section \<open>The transaction wrapper\<close>

text \<open>
  \<^verbatim>\<open>withTx\<close> of \<^verbatim>\<open>utils/tx.ts\<close>: \<^verbatim>\<open>BEGIN\<close>, the unit of work, then
  \<^verbatim>\<open>COMMIT\<close> and the result, or, when the unit of work throws, \<^verbatim>\<open>ROLLBACK\<close>
  and the same error. \<^verbatim>\<open>ROLLBACK\<close> puts the two tables back as they were at
  \<^verbatim>\<open>BEGIN\<close>; the log of statements keeps growing. The three statements of the
  wrapper itself are taken to succeed, and the connection it acquires and releases is
  left out: the faults of the model are those of the queries of the unit of work.
\<close>

definition withTx :: "(world \<Rightarrow> (error + 'a) \<times> world) \<Rightarrow> world \<Rightarrow> (error + 'a) \<times> world" where
  "withTx fn w =
     (case fn (send BEGIN w) of
        (Inr result, w1) \<Rightarrow> (Inr result, send COMMIT w1)
      | (Inl err, w1) \<Rightarrow>
          (Inl err, (send ROLLBACK w1)\<lparr>invoices := invoices w, payments := payments w\<rparr>))"

section \<open>The payment service\<close>

text \<open>Lines 70 to 72 of the service: the status derived from the cumulative amount.\<close>

definition newStatus :: "int \<Rightarrow> int \<Rightarrow> InvoiceStatus" where
  "newStatus totalPaid owed =
     (if totalPaid \<ge> owed then Paid
      else if totalPaid > 0 then PartiallyPaid
      else Sent)"

text \<open>The unit of work that \<^verbatim>\<open>handlePayment\<close> hands to \<^verbatim>\<open>withTx\<close>.\<close>

definition handlePayment_tx ::
  "(repo_op \<Rightarrow> bool) \<Rightarrow> string \<Rightarrow> string \<Rightarrow> js_amount \<Rightarrow> world
     \<Rightarrow> (error + response) \<times> world" where
  "handlePayment_tx fault eid iid amount w =
     (case getInvoiceById fault iid w of
        (Inl err, w1) \<Rightarrow> (Inl err, w1)
      | (Inr None, w1) \<Rightarrow> (Inl (NotFoundError ''Invoice not found''), w1)
      | (Inr (Some invoice), w1) \<Rightarrow>
          (case insertPayment fault eid iid amount PaymentReceived w1 of
             (Inl err, w2) \<Rightarrow> (Inl err, w2)
           | (Inr None, w2) \<Rightarrow> (Inr (Response 200 ''Payment already processed''), w2)
           | (Inr (Some inserted), w2) \<Rightarrow>
               (case getTotalPaid fault iid w2 of
                  (Inl err, w3) \<Rightarrow> (Inl err, w3)
                | (Inr totalPaid, w3) \<Rightarrow>
                    (case updateInvoiceStatus fault iid
                            (newStatus totalPaid (total_cents invoice)) w3 of
                       (Inl err, w4) \<Rightarrow> (Inl err, w4)
                     | (Inr u, w4) \<Rightarrow> (Inr (Response 201 ''Payment processed''), w4)))))"

text \<open>
  The two guards of \<^verbatim>\<open>handlePayment\<close>. \<^verbatim>\<open>!x\<close> holds of \<^verbatim>\<open>undefined\<close>,
  of \<^verbatim>\<open>null\<close> and of the empty string. \<^verbatim>\<open>amount_cents <= 0\<close> compares
  numbers: it converts \<^verbatim>\<open>undefined\<close> to \<^verbatim>\<open>NaN\<close> and
  \<^verbatim>\<open>null\<close> to 0, and every comparison with \<^verbatim>\<open>NaN\<close> is false.
\<close>

fun falsy :: "string option \<Rightarrow> bool" where
  "falsy None = True"
| "falsy (Some s) = (s = [])"

fun le_zero :: "js_amount \<Rightarrow> bool" where
  "le_zero Undefined = False"
| "le_zero JsNull = True"
| "le_zero NaN = False"
| "le_zero (Cents a) = (a \<le> 0)"

definition handlePayment ::
  "(repo_op \<Rightarrow> bool) \<Rightarrow> PaymentPayload \<Rightarrow> world \<Rightarrow> (error + response) \<times> world" where
  "handlePayment fault payload w =
     (if falsy (payload_invoice_id payload) \<or> falsy (payload_event_id payload)
      then (Inl (BadRequestError ''Missing required fields''), w)
      else if le_zero (payload_amount_cents payload)
      then (Inl (BadRequestError ''Amount must be positive''), w)
      else (case (payload_event_id payload, payload_invoice_id payload) of
              (Some eid, Some iid) \<Rightarrow>
                withTx (handlePayment_tx fault eid iid (payload_amount_cents payload)) w
            | _ \<Rightarrow> (Inl (BadRequestError ''Missing required fields''), w)))"

text \<open>
  A payload in which every field is present and the amount is an integer, as the
  boundary schema produces it.
\<close>

definition payload :: "string \<Rightarrow> string \<Rightarrow> int \<Rightarrow> PaymentPayload" where
  "payload eid iid a =
     \<lparr>payload_event_id = Some eid, payload_type = PaymentReceived,
      payload_invoice_id = Some iid, payload_amount_cents = Cents a\<rparr>"

text \<open>
  Payments applied one after the other, each with its own faults. An application that
  fails leaves the next one to run, as the worker of \<^verbatim>\<open>worker/paymentActor.ts\<close>
  does. \<open>history\<close> lists the state before the first application and after each one.
\<close>

fun handleAll :: "((repo_op \<Rightarrow> bool) \<times> PaymentPayload) list \<Rightarrow> world \<Rightarrow> world" where
  "handleAll [] w = w"
| "handleAll ((fault, p) # rest) w = handleAll rest (snd (handlePayment fault p w))"

fun history :: "((repo_op \<Rightarrow> bool) \<times> PaymentPayload) list \<Rightarrow> world \<Rightarrow> world list" where
  "history [] w = [w]"
| "history ((fault, p) # rest) w = w # history rest (snd (handlePayment fault p w))"

text \<open>
  A payment \<open>(event identifier, amount)\<close> against the invoice \<open>iid\<close>: its
  application with no fault of the database, and the row that the application inserts.
\<close>

definition payment_step :: "string \<Rightarrow> string \<times> int \<Rightarrow> (repo_op \<Rightarrow> bool) \<times> PaymentPayload" where
  "payment_step iid x = (no_fault, payload (fst x) iid (snd x))"

definition payment_row :: "string \<Rightarrow> string \<times> int \<Rightarrow> PaymentRecord" where
  "payment_row iid x =
     \<lparr>event_id = fst x, invoice_id = iid, amount_cents = snd x, payment_type = PaymentReceived\<rparr>"

text \<open>Observations on the state that the properties below are stated with.\<close>

definition status_of :: "world \<Rightarrow> string \<Rightarrow> InvoiceStatus option" where
  "status_of w invoiceId = map_option status (find (\<lambda>i. inv_id i = invoiceId) (invoices w))"

fun is_update :: "stmt \<Rightarrow> bool" where
  "is_update (UPDATE_STATUS i s) = True"
| "is_update q = False"

definition updates :: "world \<Rightarrow> nat" where
  "updates w = length (filter is_update (statements w))"

definition sent_since :: "world \<Rightarrow> world \<Rightarrow> stmt list" where
  "sent_since w w' = drop (length (statements w)) (statements w')"

text \<open>The order \<^verbatim>\<open>sent\<close>, \<^verbatim>\<open>partially_paid\<close>, \<^verbatim>\<open>paid\<close> of the statuses.\<close>

fun rank :: "InvoiceStatus \<Rightarrow> nat" where
  "rank Sent = 0"
| "rank PartiallyPaid = 1"
| "rank Paid = 2"

text \<open>
  The constraints of \<^verbatim>\<open>schema.sql\<close> that the properties rest on: the primary key of
  \<^verbatim>\<open>invoices\<close> and the check \<^verbatim>\<open>amount_cents > 0\<close> of \<^verbatim>\<open>payments\<close>; and the
  invariant of the data model, that no stored status is ahead of the status derived from
  the payments recorded against its invoice.
\<close>

definition invoice_pk :: "world \<Rightarrow> bool" where
  "invoice_pk w = distinct (map inv_id (invoices w))"

definition amounts_positive :: "world \<Rightarrow> bool" where
  "amounts_positive w = list_all (\<lambda>r. 0 < amount_cents r) (payments w)"

definition not_ahead :: "world \<Rightarrow> bool" where
  "not_ahead w =
     list_all (\<lambda>i. rank (status i)
                     \<le> rank (newStatus (total_paid (payments w) (inv_id i)) (total_cents i)))
       (invoices w)"

text \<open>One state follows another without any invoice moving backwards: the same
  invoices, in the same order, each with a status of the same or a higher rank.\<close>

definition forward :: "world \<Rightarrow> world \<Rightarrow> bool" where
  "forward w w' =
     list_all2 (\<lambda>i j. inv_id j = inv_id i \<and> total_cents j = total_cents i
                       \<and> rank (status i) \<le> rank (status j))
       (invoices w) (invoices w')"

section \<open>The sequential event queue\<close>

text \<open>
  \<^verbatim>\<open>EventQueue<PaymentPayload>\<close> of \<^verbatim>\<open>queue/eventQueue.ts\<close>, as
  \<^verbatim>\<open>worker/paymentActor.ts\<close> instantiates it. The process runs one piece of code
  at a time and \<^verbatim>\<open>processNext\<close> has one suspension point, the
  \<^verbatim>\<open>await\<close> of the handler, so the queue moves in two kinds of atomic steps:
  a call of \<^verbatim>\<open>enqueue\<close>, and the resumption of \<^verbatim>\<open>processNext\<close> when the
  promise of the handler settles. \<open>inflight\<close> is the local variable \<^verbatim>\<open>event\<close> of
  the suspended call; \<open>trace\<close> records the calls of the handler and the lines written
  to the console.
\<close>

datatype outcome = Resolved | Rejected error

datatype occurrence =
    LogSkipping string
  | HandlerCalled PaymentPayload
  | LogProcessed string
  | LogError string error

record EventQueue =
  queue :: "PaymentPayload list"
  processing :: bool
  processedEvents :: "string set"
  inflight :: "PaymentPayload option"
  trace :: "occurrence list"

definition EventQueue_new :: EventQueue where
  "EventQueue_new =
     \<lparr>queue = [], processing = False, processedEvents = {}, inflight = None, trace = []\<rparr>"

text \<open>\<^verbatim>\<open>(event as any).event_id || 'unknown'\<close>.\<close>

definition getEventId :: "PaymentPayload \<Rightarrow> string" where
  "getEventId event =
     (case payload_event_id event of
        None \<Rightarrow> ''unknown''
      | Some s \<Rightarrow> if s = [] then ''unknown'' else s)"

text \<open>\<^verbatim>\<open>processNext\<close> up to its \<^verbatim>\<open>await\<close>: the guard, the flag, the
  \<^verbatim>\<open>shift\<close> and the call of the handler.\<close>

definition processNext :: "EventQueue \<Rightarrow> EventQueue" where
  "processNext q =
     (if processing q then q
      else (case queue q of
              [] \<Rightarrow> q
            | event # rest \<Rightarrow>
                q\<lparr>processing := True, queue := rest, inflight := Some event,
                  trace := trace q @ [HandlerCalled event]\<rparr>))"

definition enqueue :: "PaymentPayload \<Rightarrow> EventQueue \<Rightarrow> EventQueue" where
  "enqueue event q =
     (let eventId = getEventId event in
      if eventId \<in> processedEvents q
      then q\<lparr>trace := trace q @ [LogSkipping eventId]\<rparr>
      else processNext (q\<lparr>queue := queue q @ [event]\<rparr>))"

text \<open>
  \<^verbatim>\<open>processNext\<close> from its \<^verbatim>\<open>await\<close> on: the rest of the
  \<^verbatim>\<open>try\<close> when the handler resolved, the \<^verbatim>\<open>catch\<close> when it rejected, then
  the \<^verbatim>\<open>finally\<close>. With no call suspended there is nothing to resume.
\<close>

definition processNext_resume :: "outcome \<Rightarrow> EventQueue \<Rightarrow> EventQueue" where
  "processNext_resume out q =
     (case inflight q of
        None \<Rightarrow> q
      | Some event \<Rightarrow>
          (let eventId = getEventId event;
               q1 = (case out of
                       Resolved \<Rightarrow>
                         q\<lparr>processedEvents := insert eventId (processedEvents q),
                           trace := trace q @ [LogProcessed eventId]\<rparr>
                     | Rejected err \<Rightarrow> q\<lparr>trace := trace q @ [LogError eventId err]\<rparr>);
               q2 = q1\<lparr>processing := False, inflight := None\<rparr>
           in if queue q2 \<noteq> [] then processNext q2 else q2))"

text \<open>\<^verbatim>\<open>isEventProcessed\<close>.\<close>

definition isEventProcessed :: "string \<Rightarrow> EventQueue \<Rightarrow> bool" where
  "isEventProcessed eventId q = (eventId \<in> processedEvents q)"

text \<open>The steps of a queue, and a run of them.\<close>

datatype action = Enqueue PaymentPayload | Settle outcome

fun step :: "action \<Rightarrow> EventQueue \<Rightarrow> EventQueue" where
  "step (Enqueue event) q = enqueue event q"
| "step (Settle out) q = processNext_resume out q"

fun exec :: "action list \<Rightarrow> EventQueue \<Rightarrow> EventQueue" where
  "exec [] q = q"
| "exec (a # rest) q = exec rest (step a q)"

text \<open>The events handed to the handler, in the order of the calls.\<close>

fun called :: "occurrence list \<Rightarrow> PaymentPayload list" where
  "called [] = []"
| "called (HandlerCalled event # t) = event # called t"
| "called (x # t) = called t"

text \<open>The events that a run of steps puts on the backlog, in the order of the calls of
  \<^verbatim>\<open>enqueue\<close>: all but those dropped as already processed.\<close>

fun accepted :: "action list \<Rightarrow> EventQueue \<Rightarrow> PaymentPayload list" where
  "accepted [] q = []"
| "accepted (Enqueue event # rest) q =
     (if getEventId event \<in> processedEvents q then [] else [event])
       @ accepted rest (step (Enqueue event) q)"
| "accepted (Settle out # rest) q = accepted rest (step (Settle out) q)"

text \<open>
  A monitor of the trace: \<open>Busy\<close> between the call of the handler and the line that
  reports how it ended, \<open>Violation\<close> once the handler is called while \<open>Busy\<close> or a
  line reports an end that no call started.
\<close>

datatype monitor = Idle | Busy PaymentPayload | Violation

fun observe :: "monitor \<Rightarrow> occurrence \<Rightarrow> monitor" where
  "observe m (LogSkipping i) = m"
| "observe Idle (HandlerCalled event) = Busy event"
| "observe (Busy event) (LogProcessed i) = (if i = getEventId event then Idle else Violation)"
| "observe (Busy event) (LogError i err) = (if i = getEventId event then Idle else Violation)"
| "observe m x = Violation"

definition monitor_of :: "occurrence list \<Rightarrow> monitor" where
  "monitor_of t = foldl observe Idle t"

text \<open>
  The invariant of the queue: the flag is set exactly while a call of the handler is
  suspended, an idle queue has an empty backlog, and the monitor of the trace is
  \<open>Busy\<close> with the event in flight, or \<open>Idle\<close>.
\<close>

definition queue_ok :: "EventQueue \<Rightarrow> bool" where
  "queue_ok q =
     ((processing q \<longleftrightarrow> inflight q \<noteq> None)
      \<and> (processing q \<or> queue q = [])
      \<and> monitor_of (trace q) = (case inflight q of None \<Rightarrow> Idle | Some event \<Rightarrow> Busy event))"

section \<open>Example states\<close>

text \<open>An invoice of 5000 with no payment, stored as \<^verbatim>\<open>sent\<close> in \<open>world_A\<close>
  and as \<^verbatim>\<open>paid\<close> in \<open>world_paid\<close>; sequences of applications; and queues
  with the first event processed or in flight.\<close>

definition invoice_A :: InvoiceRecord where
  "invoice_A = \<lparr>inv_id = ''inv-A'', total_cents = 5000, status = Sent\<rparr>"

definition world_A :: world where
  "world_A = \<lparr>invoices = [invoice_A], payments = [], statements = []\<rparr>"

definition world_paid :: world where
  "world_paid =
     \<lparr>invoices = [\<lparr>inv_id = ''inv-P'', total_cents = 5000, status = Paid\<rparr>],
      payments = [], statements = []\<rparr>"

definition steps_A :: "((repo_op \<Rightarrow> bool) \<times> PaymentPayload) list" where
  "steps_A = [(no_fault, payload ''evt-1'' ''inv-A'' 3000),
              (no_fault, payload ''evt-1'' ''inv-A'' 3000),
              (\<lambda>q. q = UpdateInvoiceStatus, payload ''evt-2'' ''inv-A'' 2000),
              (no_fault, payload ''evt-2'' ''inv-A'' 2000),
              (no_fault, payload ''evt-3'' ''inv-A'' 1)]"

definition event_A :: PaymentPayload where
  "event_A = payload ''evt-1'' ''inv-A'' 3000"

definition event_B :: PaymentPayload where
  "event_B = payload ''evt-2'' ''inv-A'' 2000"

definition queue_done :: EventQueue where
  "queue_done =
     \<lparr>queue = [], processing = False, processedEvents = {''evt-1''}, inflight = None,
      trace = [HandlerCalled event_A, LogProcessed ''evt-1'']\<rparr>"

definition queue_busy :: EventQueue where
  "queue_busy =
     \<lparr>queue = [event_B], processing = True, processedEvents = {}, inflight = Some event_A,
      trace = [HandlerCalled event_A]\<rparr>"

section \<open>Facts about the payment service\<close>

lemmas hp_defs = handlePayment_def withTx_def handlePayment_tx_def getInvoiceById_def
  insertPayment_def getTotalPaid_def updateInvoiceStatus_def send_def Let_def

lemma total_paid_append:
  "total_paid (rows @ [r]) iid =
     total_paid rows iid + (if invoice_id r = iid then amount_cents r else 0)"
  by (simp add: total_paid_def)

lemma find_set_status:
  "find (\<lambda>i. inv_id i = x) (set_status iid st rows) =
     map_option (\<lambda>i. if inv_id i = iid then i\<lparr>status := st\<rparr> else i)
       (find (\<lambda>i. inv_id i = x) rows)"
  by (induction rows) (auto simp: set_status_def)

lemma handlePayment_new:
  assumes "eid \<noteq> []" "iid \<noteq> []" "0 < a"
    and "find (\<lambda>i. inv_id i = iid) (invoices w) = Some invoice"
    and "eid \<notin> event_id ` set (payments w)"
    and "\<not> fault GetInvoiceById" "\<not> fault InsertPayment"
        "\<not> fault GetTotalPaid" "\<not> fault UpdateInvoiceStatus"
  shows "handlePayment fault (payload eid iid a) w =
    (Inr (Response 201 ''Payment processed''),
     \<lparr>invoices = set_status iid
         (newStatus (total_paid (payments w) iid + a) (total_cents invoice)) (invoices w),
      payments = payments w @ [\<lparr>event_id = eid, invoice_id = iid, amount_cents = a,
         payment_type = PaymentReceived\<rparr>],
      statements = statements w @ [BEGIN, SELECT_INVOICE iid, INSERT_PAYMENT eid,
         SELECT_TOTAL_PAID iid,
         UPDATE_STATUS iid (newStatus (total_paid (payments w) iid + a) (total_cents invoice)),
         COMMIT]\<rparr>)"
  using assms by (simp add: hp_defs payload_def total_paid_append)

lemma handlePayment_replay:
  assumes "eid \<noteq> []" "iid \<noteq> []" "0 < a"
    and "find (\<lambda>i. inv_id i = iid) (invoices w) = Some invoice"
    and "eid \<in> event_id ` set (payments w)"
    and "\<not> fault GetInvoiceById" "\<not> fault InsertPayment"
  shows "handlePayment fault (payload eid iid a) w =
    (Inr (Response 200 ''Payment already processed''),
     w\<lparr>statements := statements w @ [BEGIN, SELECT_INVOICE iid, INSERT_PAYMENT eid, COMMIT]\<rparr>)"
  using assms by (simp add: hp_defs payload_def)

text \<open>Every run of \<open>handlePayment\<close> is of one of four kinds.\<close>

lemma handlePayment_cases:
  assumes "handlePayment fault p w = (r, w')"
  obtains
    (invalid) m where "r = Inl (BadRequestError m)" "w' = w"
  | (rollback) e where "r = Inl e" "invoices w' = invoices w" "payments w' = payments w"
      "statements w' \<noteq> []" "last (statements w') = ROLLBACK"
  | (replay) eid iid where "r = Inr (Response 200 ''Payment already processed'')"
      "payload_event_id p = Some eid" "payload_invoice_id p = Some iid"
      "w' = w\<lparr>statements := statements w @ [BEGIN, SELECT_INVOICE iid, INSERT_PAYMENT eid, COMMIT]\<rparr>"
  | (new) eid iid a invoice where "r = Inr (Response 201 ''Payment processed'')"
      "p = payload eid iid a" "eid \<noteq> []" "iid \<noteq> []" "0 < a"
      "find (\<lambda>i. inv_id i = iid) (invoices w) = Some invoice"
      "eid \<notin> event_id ` set (payments w)"
      "w' = \<lparr>invoices = set_status iid
         (newStatus (total_paid (payments w) iid + a) (total_cents invoice)) (invoices w),
      payments = payments w @ [\<lparr>event_id = eid, invoice_id = iid, amount_cents = a,
         payment_type = PaymentReceived\<rparr>],
      statements = statements w @ [BEGIN, SELECT_INVOICE iid, INSERT_PAYMENT eid,
         SELECT_TOTAL_PAID iid,
         UPDATE_STATUS iid (newStatus (total_paid (payments w) iid + a) (total_cents invoice)),
         COMMIT]\<rparr>"
proof (cases "falsy (payload_invoice_id p) \<or> falsy (payload_event_id p)
               \<or> le_zero (payload_amount_cents p)")
  case True
  with assms have "(\<exists>m. r = Inl (BadRequestError m)) \<and> w' = w"
    by (auto simp: handlePayment_def split: if_splits)
  then show ?thesis using invalid by blast
next
  case False
  then obtain eid iid where ids: "payload_event_id p = Some eid" "eid \<noteq> []"
      "payload_invoice_id p = Some iid" "iid \<noteq> []"
    by (cases "payload_event_id p"; cases "payload_invoice_id p") auto
  from False have amt: "\<not> le_zero (payload_amount_cents p)" by simp
  have run: "withTx (handlePayment_tx fault eid iid (payload_amount_cents p)) w = (r, w')"
    using assms False ids by (simp add: handlePayment_def)
  show ?thesis
  proof (cases r)
    case (Inl e)
    with run have "invoices w' = invoices w \<and> payments w' = payments w
        \<and> statements w' \<noteq> [] \<and> last (statements w') = ROLLBACK"
      by (auto simp: withTx_def send_def split: prod.splits sum.splits)
    with Inl show ?thesis using rollback by blast
  next
    case (Inr resp)
    show ?thesis
    proof (cases "eid \<in> event_id ` set (payments w)")
      case True
      with run Inr ids amt have "r = Inr (Response 200 ''Payment already processed'')
          \<and> w' = w\<lparr>statements := statements w @ [BEGIN, SELECT_INVOICE iid, INSERT_PAYMENT eid, COMMIT]\<rparr>"
        by (auto simp: hp_defs split: if_splits option.splits js_amount.splits)
      with ids show ?thesis using replay by blast
    next
      case fresh: False
      from run Inr fresh obtain a invoice where a: "payload_amount_cents p = Cents a"
          and found: "find (\<lambda>i. inv_id i = iid) (invoices w) = Some invoice"
          and nf: "\<not> fault GetInvoiceById" "\<not> fault InsertPayment"
                  "\<not> fault GetTotalPaid" "\<not> fault UpdateInvoiceStatus"
        by (auto simp: hp_defs split: if_splits option.splits js_amount.splits)
      from a amt have pos: "0 < a" by simp
      have p: "p = payload eid iid a"
        using ids a by (cases p; cases "payload_type p") (simp add: payload_def)
      from assms show ?thesis
        unfolding p handlePayment_new [OF ids(2) ids(4) pos found fresh nf]
        using new [OF _ p ids(2) ids(4) pos found fresh] by simp
    qed
  qed
qed

lemma sent_since_append: "statements w' = statements w @ qs \<Longrightarrow> sent_since w w' = qs"
  by (simp add: sent_since_def)

lemma updates_append:
  "statements w' = statements w @ qs \<Longrightarrow> updates w' = updates w + length (filter is_update qs)"
  by (simp add: updates_def)

section \<open>Idempotent replay\<close>

text \<open>
  Claim C1. A valid payload whose invoice exists and whose event identifier is new is
  applied, and then a valid payload with the same event identifier is applied (with no
  fault of the database). The first application answers 201; the second answers 200
  "Payment already processed", leaves both tables as they are and ends with
  \<^verbatim>\<open>COMMIT\<close> after the lookup and the ignored insert, with no
  \<^verbatim>\<open>ROLLBACK\<close>. Afterwards exactly one payment row carries the event
  identifier, and of the two applications only the first sent an update of the status.
\<close>

theorem C1_same_event_twice:
  assumes "eid \<noteq> []" "iid \<noteq> []" "0 < a" "iid2 \<noteq> []" "0 < a2"
    and "find (\<lambda>i. inv_id i = iid) (invoices w) = Some invoice"
    and "find (\<lambda>i. inv_id i = iid2) (invoices w) = Some invoice2"
    and "eid \<notin> event_id ` set (payments w)"
    and "handlePayment no_fault (payload eid iid a) w = (r1, w1)"
    and "handlePayment no_fault (payload eid iid2 a2) w1 = (r2, w2)"
  shows "r1 = Inr (Response 201 ''Payment processed'')
       \<and> r2 = Inr (Response 200 ''Payment already processed'')
       \<and> invoices w2 = invoices w1 \<and> payments w2 = payments w1
       \<and> statements w2 = statements w1 @ [BEGIN, SELECT_INVOICE iid2, INSERT_PAYMENT eid, COMMIT]
       \<and> length (filter (\<lambda>r. event_id r = eid) (payments w2)) = 1
       \<and> updates w1 = updates w + 1 \<and> updates w2 = updates w1"
proof -
  let ?st = "newStatus (total_paid (payments w) iid + a) (total_cents invoice)"
  have nf: "\<not> no_fault GetInvoiceById" "\<not> no_fault InsertPayment"
           "\<not> no_fault GetTotalPaid" "\<not> no_fault UpdateInvoiceStatus"
    by (simp_all add: no_fault_def)
  have first: "r1 = Inr (Response 201 ''Payment processed'')"
    and w1: "invoices w1 = set_status iid ?st (invoices w)"
      "payments w1 = payments w @ [\<lparr>event_id = eid, invoice_id = iid, amount_cents = a,
         payment_type = PaymentReceived\<rparr>]"
      "statements w1 = statements w @ [BEGIN, SELECT_INVOICE iid, INSERT_PAYMENT eid,
         SELECT_TOTAL_PAID iid, UPDATE_STATUS iid ?st, COMMIT]"
    using assms(9) unfolding handlePayment_new [OF assms(1,2,3,6,8) nf] by auto
  have found2: "\<exists>j. find (\<lambda>i. inv_id i = iid2) (invoices w1) = Some j"
    by (simp add: w1(1) find_set_status assms(7))
  then obtain j where j: "find (\<lambda>i. inv_id i = iid2) (invoices w1) = Some j" ..
  have present: "eid \<in> event_id ` set (payments w1)"
    by (simp add: w1(2))
  have second: "r2 = Inr (Response 200 ''Payment already processed'')"
    and w2: "w2 = w1\<lparr>statements := statements w1 @ [BEGIN, SELECT_INVOICE iid2, INSERT_PAYMENT eid, COMMIT]\<rparr>"
    using assms(10) unfolding handlePayment_replay [OF assms(1,4,5) j present nf(1,2)] by auto
  have none: "filter (\<lambda>r. event_id r = eid) (payments w) = []"
    using assms(8) by (auto simp: filter_empty_conv)
  have one: "length (filter (\<lambda>r. event_id r = eid) (payments w2)) = 1"
    by (simp add: w2 w1(2) none)
  have u1: "updates w1 = updates w + 1"
    using updates_append [OF w1(3)] by simp
  have u2: "updates w2 = updates w1"
    by (simp add: w2 updates_def)
  from first second one u1 u2 show ?thesis by (simp add: w2)
qed

theorem C1_same_event_twice_witness:
  "handlePayment no_fault (payload ''evt-1'' ''inv-A'' 3000) world_A
     = (Inr (Response 201 ''Payment processed''),
        \<lparr>invoices = [invoice_A\<lparr>status := PartiallyPaid\<rparr>],
         payments = [\<lparr>event_id = ''evt-1'', invoice_id = ''inv-A'', amount_cents = 3000,
                      payment_type = PaymentReceived\<rparr>],
         statements = [BEGIN, SELECT_INVOICE ''inv-A'', INSERT_PAYMENT ''evt-1'',
                       SELECT_TOTAL_PAID ''inv-A'', UPDATE_STATUS ''inv-A'' PartiallyPaid, COMMIT]\<rparr>)
   \<and> fst (handlePayment no_fault (payload ''evt-1'' ''inv-A'' 3000)
            (snd (handlePayment no_fault (payload ''evt-1'' ''inv-A'' 3000) world_A)))
     = Inr (Response 200 ''Payment already processed'')
   \<and> length (filter (\<lambda>r. event_id r = ''evt-1'')
        (payments (snd (handlePayment no_fault (payload ''evt-1'' ''inv-A'' 3000)
            (snd (handlePayment no_fault (payload ''evt-1'' ''inv-A'' 3000) world_A)))))) = 1"
proof -
  let ?p = "payload ''evt-1'' ''inv-A'' 3000"
  have found: "find (\<lambda>i. inv_id i = ''inv-A'') (invoices world_A) = Some invoice_A"
    by (simp add: world_A_def invoice_A_def)
  have fresh: "''evt-1'' \<notin> event_id ` set (payments world_A)"
    by (simp add: world_A_def)
  obtain r1 w1 where one: "handlePayment no_fault ?p world_A = (r1, w1)" by fastforce
  obtain r2 w2 where two: "handlePayment no_fault ?p w1 = (r2, w2)" by fastforce
  have first: "handlePayment no_fault ?p world_A
     = (Inr (Response 201 ''Payment processed''),
        \<lparr>invoices = [invoice_A\<lparr>status := PartiallyPaid\<rparr>],
         payments = [\<lparr>event_id = ''evt-1'', invoice_id = ''inv-A'', amount_cents = 3000,
                      payment_type = PaymentReceived\<rparr>],
         statements = [BEGIN, SELECT_INVOICE ''inv-A'', INSERT_PAYMENT ''evt-1'',
                       SELECT_TOTAL_PAID ''inv-A'', UPDATE_STATUS ''inv-A'' PartiallyPaid, COMMIT]\<rparr>)"
    by (simp add: hp_defs payload_def world_A_def invoice_A_def no_fault_def total_paid_def set_status_def
          newStatus_def)
  have v: "''evt-1'' \<noteq> []" "''inv-A'' \<noteq> []" "(0::int) < 3000"
    by simp_all
  from C1_same_event_twice [OF v(1) v(2) v(3) v(2) v(3) found found fresh one two]
  have "r2 = Inr (Response 200 ''Payment already processed'')
      \<and> length (filter (\<lambda>r. event_id r = ''evt-1'') (payments w2)) = 1"
    by blast
  with one two first show ?thesis by simp
qed

section \<open>Unknown invoices and rollback\<close>

lemma handlePayment_not_found:
  assumes "\<not> falsy (payload_event_id p)" "\<not> le_zero (payload_amount_cents p)"
    and "payload_invoice_id p = Some iid" "iid \<noteq> []"
    and "find (\<lambda>i. inv_id i = iid) (invoices w) = None"
    and "\<not> fault GetInvoiceById"
  shows "handlePayment fault p w =
    (Inl (NotFoundError ''Invoice not found''),
     w\<lparr>statements := statements w @ [BEGIN, SELECT_INVOICE iid, ROLLBACK]\<rparr>)"
  using assms by (cases "payload_event_id p") (simp_all add: hp_defs)

lemma withTx_failure:
  assumes "fn (send BEGIN w) = (Inl e, w1)"
  shows "withTx fn w =
    (Inl e, w1\<lparr>invoices := invoices w, payments := payments w,
               statements := statements w1 @ [ROLLBACK]\<rparr>)"
  using assms by (simp add: withTx_def send_def)

text \<open>
  Claim C3. A payload that passes the two guards and whose invoice identifier matches no
  invoice fails with \<open>NotFoundError\<close> (the lookup itself not failing): the connection
  sees \<^verbatim>\<open>BEGIN\<close>, the lookup and \<^verbatim>\<open>ROLLBACK\<close>, and neither table changes.
  When the unit of work of \<open>withTx\<close> fails, in whatever state, \<open>withTx\<close> fails with
  the same error, sends \<^verbatim>\<open>ROLLBACK\<close> and the tables are as before
  \<^verbatim>\<open>BEGIN\<close>. So whenever \<open>handlePayment\<close> fails, whichever query failed, both
  tables are unchanged; and when it succeeds, its last statement is \<^verbatim>\<open>COMMIT\<close> and
  either both tables are unchanged (a replay) or the payment row was added and the status
  of its invoice was set: never one without the other.
\<close>

theorem C3_not_found_and_rollback:
  "(\<not> falsy (payload_event_id p) \<and> \<not> le_zero (payload_amount_cents p)
      \<and> payload_invoice_id p = Some iid \<and> iid \<noteq> []
      \<and> find (\<lambda>i. inv_id i = iid) (invoices w) = None \<and> \<not> fault GetInvoiceById
    \<longrightarrow> handlePayment fault p w =
          (Inl (NotFoundError ''Invoice not found''),
           w\<lparr>statements := statements w @ [BEGIN, SELECT_INVOICE iid, ROLLBACK]\<rparr>))
   \<and> (fn (send BEGIN w) = (Inl e, w1)
    \<longrightarrow> withTx fn w =
          (Inl e, w1\<lparr>invoices := invoices w, payments := payments w,
                     statements := statements w1 @ [ROLLBACK]\<rparr>))
   \<and> (handlePayment fault p w = (Inl e, w')
    \<longrightarrow> invoices w' = invoices w \<and> payments w' = payments w
        \<and> (w' = w \<or> last (statements w') = ROLLBACK))
   \<and> (handlePayment fault p w = (Inr resp, w')
    \<longrightarrow> last (statements w') = COMMIT
        \<and> (invoices w' = invoices w \<and> payments w' = payments w
           \<or> (\<exists>row st. payments w' = payments w @ [row]
                \<and> Some (event_id row) = payload_event_id p
                \<and> Some (invoice_id row) = payload_invoice_id p
                \<and> invoices w' = set_status (invoice_id row) st (invoices w)
                \<and> UPDATE_STATUS (invoice_id row) st \<in> set (sent_since w w'))))"
proof (intro conjI impI)
  assume "\<not> falsy (payload_event_id p) \<and> \<not> le_zero (payload_amount_cents p)
      \<and> payload_invoice_id p = Some iid \<and> iid \<noteq> []
      \<and> find (\<lambda>i. inv_id i = iid) (invoices w) = None \<and> \<not> fault GetInvoiceById"
  then show "handlePayment fault p w =
          (Inl (NotFoundError ''Invoice not found''),
           w\<lparr>statements := statements w @ [BEGIN, SELECT_INVOICE iid, ROLLBACK]\<rparr>)"
    by (intro handlePayment_not_found) simp_all
next
  assume "fn (send BEGIN w) = (Inl e, w1)"
  then show "withTx fn w =
          (Inl e, w1\<lparr>invoices := invoices w, payments := payments w,
                     statements := statements w1 @ [ROLLBACK]\<rparr>)"
    by (rule withTx_failure)
next
  assume run: "handlePayment fault p w = (Inl e, w')"
  then show "invoices w' = invoices w" "payments w' = payments w"
      "w' = w \<or> last (statements w') = ROLLBACK"
    by (cases rule: handlePayment_cases; simp)+
next
  assume run: "handlePayment fault p w = (Inr resp, w')"
  then show "last (statements w') = COMMIT"
    by (cases rule: handlePayment_cases) simp_all
  from run show "invoices w' = invoices w \<and> payments w' = payments w
           \<or> (\<exists>row st. payments w' = payments w @ [row]
                \<and> Some (event_id row) = payload_event_id p
                \<and> Some (invoice_id row) = payload_invoice_id p
                \<and> invoices w' = set_status (invoice_id row) st (invoices w)
                \<and> UPDATE_STATUS (invoice_id row) st \<in> set (sent_since w w'))"
  proof (cases rule: handlePayment_cases)
    case (new eid iid a invoice)
    let ?row = "\<lparr>event_id = eid, invoice_id = iid, amount_cents = a,
         payment_type = PaymentReceived\<rparr>"
    let ?st = "newStatus (total_paid (payments w) iid + a) (total_cents invoice)"
    have "payments w' = payments w @ [?row]
        \<and> Some (event_id ?row) = payload_event_id p
        \<and> Some (invoice_id ?row) = payload_invoice_id p
        \<and> invoices w' = set_status (invoice_id ?row) ?st (invoices w)
        \<and> UPDATE_STATUS (invoice_id ?row) ?st \<in> set (sent_since w w')"
      using new by (simp add: payload_def sent_since_def)
    then show ?thesis by blast
  qed simp_all
qed

theorem C3_not_found_and_rollback_witness:
  "handlePayment no_fault (payload ''evt-1'' ''inv-Z'' 3000) world_A =
     (Inl (NotFoundError ''Invoice not found''),
      world_A\<lparr>statements := [BEGIN, SELECT_INVOICE ''inv-Z'', ROLLBACK]\<rparr>)
   \<and> handlePayment (\<lambda>q. q = UpdateInvoiceStatus) (payload ''evt-1'' ''inv-A'' 3000) world_A =
     (Inl StorageError,
      world_A\<lparr>statements := [BEGIN, SELECT_INVOICE ''inv-A'', INSERT_PAYMENT ''evt-1'',
         SELECT_TOTAL_PAID ''inv-A'', UPDATE_STATUS ''inv-A'' PartiallyPaid, ROLLBACK]\<rparr>)
   \<and> invoices (snd (handlePayment (\<lambda>q. q = UpdateInvoiceStatus)
         (payload ''evt-1'' ''inv-A'' 3000) world_A)) = invoices world_A
   \<and> payments (snd (handlePayment (\<lambda>q. q = UpdateInvoiceStatus)
         (payload ''evt-1'' ''inv-A'' 3000) world_A)) = payments world_A
   \<and> last (statements (snd (handlePayment no_fault (payload ''evt-1'' ''inv-A'' 3000) world_A)))
       = COMMIT"
proof -
  let ?f = "\<lambda>q. q = UpdateInvoiceStatus"
  let ?p = "payload ''evt-1'' ''inv-A'' 3000"
  have nf: "handlePayment no_fault (payload ''evt-1'' ''inv-Z'' 3000) world_A =
     (Inl (NotFoundError ''Invoice not found''),
      world_A\<lparr>statements := [BEGIN, SELECT_INVOICE ''inv-Z'', ROLLBACK]\<rparr>)"
    using C3_not_found_and_rollback [of "payload ''evt-1'' ''inv-Z'' 3000" "''inv-Z''" world_A
        no_fault, THEN conjunct1]
    by (simp add: payload_def world_A_def invoice_A_def no_fault_def)
  have failing: "handlePayment ?f ?p world_A =
     (Inl StorageError,
      world_A\<lparr>statements := [BEGIN, SELECT_INVOICE ''inv-A'', INSERT_PAYMENT ''evt-1'',
         SELECT_TOTAL_PAID ''inv-A'', UPDATE_STATUS ''inv-A'' PartiallyPaid, ROLLBACK]\<rparr>)"
    by (simp add: hp_defs payload_def world_A_def invoice_A_def total_paid_def newStatus_def)
  have ok: "handlePayment no_fault ?p world_A =
     (Inr (Response 201 ''Payment processed''), snd (handlePayment no_fault ?p world_A))"
    by (simp add: hp_defs payload_def world_A_def invoice_A_def total_paid_def newStatus_def
          no_fault_def)
  have unchanged: "invoices (snd (handlePayment ?f ?p world_A)) = invoices world_A
      \<and> payments (snd (handlePayment ?f ?p world_A)) = payments world_A"
    using C3_not_found_and_rollback [of ?p "''inv-A''" world_A ?f _ StorageError _
        "snd (handlePayment ?f ?p world_A)", THEN conjunct2, THEN conjunct2, THEN conjunct1]
      failing by simp
  have committed:
    "last (statements (snd (handlePayment no_fault ?p world_A))) = COMMIT"
    using C3_not_found_and_rollback [of ?p "''inv-A''" world_A no_fault _ _ _
        "snd (handlePayment no_fault ?p world_A)" "Response 201 ''Payment processed''",
        THEN conjunct2, THEN conjunct2, THEN conjunct2] ok by simp
  from nf failing unchanged committed show ?thesis by simp
qed

section \<open>The guards of the service\<close>

text \<open>What the two guards do reject: a payload whose event identifier or invoice
  identifier is missing or empty, or whose amount compares as at most 0, fails with
  \<open>BadRequestError\<close> and the state, the log of statements included, is untouched.\<close>

lemma handlePayment_guards:
  assumes "falsy (payload_invoice_id p) \<or> falsy (payload_event_id p)
           \<or> le_zero (payload_amount_cents p)"
  shows "\<exists>m. handlePayment fault p w = (Inl (BadRequestError m), w)"
  using assms by (auto simp: handlePayment_def)

text \<open>
  Claim C6 asks that a payload whose event identifier, invoice identifier or amount is
  missing, or whose amount is not strictly positive, fail with a validation error before
  any transactional work. The code does not do so for the amount: its guard is
  \<^verbatim>\<open>amount_cents <= 0\<close>, which is false of \<^verbatim>\<open>NaN\<close>, a number that is not
  strictly positive, and of a missing amount. Such a payload passes both guards and
  enters the transaction: with an unknown invoice it fails with \<open>NotFoundError\<close> after
  \<^verbatim>\<open>BEGIN\<close>, the lookup and \<^verbatim>\<open>ROLLBACK\<close>; with a known invoice it fails only
  when the database refuses the insert.
\<close>

theorem C6_amount_guard_misses:
  "handlePayment no_fault
     \<lparr>payload_event_id = Some ''evt-1'', payload_type = PaymentReceived,
      payload_invoice_id = Some ''inv-Z'', payload_amount_cents = NaN\<rparr> world_A =
   (Inl (NotFoundError ''Invoice not found''),
    world_A\<lparr>statements := [BEGIN, SELECT_INVOICE ''inv-Z'', ROLLBACK]\<rparr>)
   \<and> handlePayment no_fault
     \<lparr>payload_event_id = Some ''evt-1'', payload_type = PaymentReceived,
      payload_invoice_id = Some ''inv-A'', payload_amount_cents = NaN\<rparr> world_A =
   (Inl StorageError,
    world_A\<lparr>statements := [BEGIN, SELECT_INVOICE ''inv-A'', INSERT_PAYMENT ''evt-1'',
       ROLLBACK]\<rparr>)
   \<and> handlePayment no_fault
     \<lparr>payload_event_id = Some ''evt-1'', payload_type = PaymentReceived,
      payload_invoice_id = Some ''inv-Z'', payload_amount_cents = Undefined\<rparr> world_A =
   (Inl (NotFoundError ''Invoice not found''),
    world_A\<lparr>statements := [BEGIN, SELECT_INVOICE ''inv-Z'', ROLLBACK]\<rparr>)"
  by (simp add: hp_defs world_A_def invoice_A_def no_fault_def)

section \<open>The status that is written\<close>

lemma total_paid_nonneg:
  "list_all (\<lambda>r. 0 < amount_cents r) rows \<Longrightarrow> 0 \<le> total_paid rows iid"
  unfolding total_paid_def by (induction rows) auto

lemma newStatus_not_Sent: "0 < paid \<Longrightarrow> newStatus paid owed \<noteq> Sent"
  by (simp add: newStatus_def)

lemma handlePayment_update_sent:
  assumes "handlePayment fault p w = (r, w')"
    and "UPDATE_STATUS i st \<in> set (sent_since w w')"
    and "0 \<le> total_paid (payments w) i"
  shows "st \<noteq> Sent"
proof (cases "falsy (payload_invoice_id p) \<or> falsy (payload_event_id p)
               \<or> le_zero (payload_amount_cents p)")
  case True
  with assms show ?thesis
    by (auto simp: handlePayment_def sent_since_def split: if_splits)
next
  case False
  then obtain eid iid where ids: "payload_event_id p = Some eid" "payload_invoice_id p = Some iid"
    by (cases "payload_event_id p"; cases "payload_invoice_id p") auto
  from False have amt: "\<not> le_zero (payload_amount_cents p)" by simp
  show ?thesis
  proof (cases "payload_amount_cents p")
    case (Cents a)
    with amt have "0 < a" by simp
    with assms False ids Cents show ?thesis
      by (auto simp: hp_defs sent_since_def total_paid_append newStatus_def
            split: if_splits option.splits)
  next
    case Undefined
    with assms False ids show ?thesis
      by (auto simp: hp_defs sent_since_def split: if_splits option.splits)
  next
    case JsNull
    with amt show ?thesis by simp
  next
    case NaN
    with assms False ids show ?thesis
      by (auto simp: hp_defs sent_since_def split: if_splits option.splits)
  qed
qed

text \<open>
  Claim C9. The payment rows hold strictly positive amounts (the check of the schema).
  Then no update of the status that \<open>handlePayment\<close> sends, committed or not, carries
  \<^verbatim>\<open>sent\<close>; and when it answers 201, having inserted a new payment, it has sent
  an update for the invoice of the payload, with a status other than \<^verbatim>\<open>sent\<close>,
  which is the status of that invoice afterwards.
\<close>

theorem C9_written_status_not_sent:
  assumes "amounts_positive w"
    and "handlePayment fault p w = (r, w')"
  shows "UPDATE_STATUS i Sent \<notin> set (sent_since w w')
       \<and> (r = Inr (Response 201 ''Payment processed'') \<longrightarrow>
            (\<exists>iid st. payload_invoice_id p = Some iid \<and> st \<noteq> Sent
               \<and> UPDATE_STATUS iid st \<in> set (sent_since w w')
               \<and> status_of w' iid = Some st))"
proof (intro conjI impI)
  show "UPDATE_STATUS i Sent \<notin> set (sent_since w w')"
  proof
    assume "UPDATE_STATUS i Sent \<in> set (sent_since w w')"
    moreover have "0 \<le> total_paid (payments w) i"
      using assms(1) by (simp add: amounts_positive_def total_paid_nonneg)
    ultimately show False
      using handlePayment_update_sent [OF assms(2)] by blast
  qed
next
  assume "r = Inr (Response 201 ''Payment processed'')"
  with assms(2) show "\<exists>iid st. payload_invoice_id p = Some iid \<and> st \<noteq> Sent
               \<and> UPDATE_STATUS iid st \<in> set (sent_since w w')
               \<and> status_of w' iid = Some st"
  proof (cases rule: handlePayment_cases)
    case (new eid iid a invoice)
    let ?st = "newStatus (total_paid (payments w) iid + a) (total_cents invoice)"
    have "0 \<le> total_paid (payments w) iid"
      using assms(1) by (simp add: amounts_positive_def total_paid_nonneg)
    with new(5) have "?st \<noteq> Sent"
      by (intro newStatus_not_Sent) simp
    moreover have "inv_id invoice = iid"
      using new(6) by (auto simp: find_Some_iff)
    then have "status_of w' iid = Some ?st"
      using new(6) by (simp add: new(8) status_of_def find_set_status)
    moreover have "UPDATE_STATUS iid ?st \<in> set (sent_since w w')"
      by (simp add: new(8) sent_since_def)
    moreover have "payload_invoice_id p = Some iid"
      by (simp add: new(2) payload_def)
    ultimately show ?thesis by blast
  qed simp_all
qed

theorem C9_written_status_not_sent_witness:
  "amounts_positive world_A
   \<and> handlePayment no_fault (payload ''evt-1'' ''inv-A'' 1) world_A =
       (Inr (Response 201 ''Payment processed''),
        snd (handlePayment no_fault (payload ''evt-1'' ''inv-A'' 1) world_A))
   \<and> status_of (snd (handlePayment no_fault (payload ''evt-1'' ''inv-A'' 1) world_A)) ''inv-A''
       = Some PartiallyPaid
   \<and> UPDATE_STATUS ''inv-A'' Sent \<notin> set (sent_since world_A
         (snd (handlePayment no_fault (payload ''evt-1'' ''inv-A'' 1) world_A)))"
proof -
  let ?p = "payload ''evt-1'' ''inv-A'' 1"
  have pos: "amounts_positive world_A"
    by (simp add: amounts_positive_def world_A_def)
  have run: "handlePayment no_fault ?p world_A =
       (Inr (Response 201 ''Payment processed''), snd (handlePayment no_fault ?p world_A))"
    by (simp add: hp_defs payload_def world_A_def invoice_A_def total_paid_def newStatus_def
          no_fault_def)
  have st: "status_of (snd (handlePayment no_fault ?p world_A)) ''inv-A'' = Some PartiallyPaid"
    by (simp add: hp_defs payload_def world_A_def invoice_A_def total_paid_def newStatus_def
          no_fault_def status_of_def set_status_def)
  from C9_written_status_not_sent [OF pos run, of "''inv-A''"]
  have "UPDATE_STATUS ''inv-A'' Sent \<notin> set (sent_since world_A
         (snd (handlePayment no_fault ?p world_A)))"
    by blast
  with pos run st show ?thesis by blast
qed

section \<open>Statuses along a sequence of payments\<close>

lemma rank_newStatus_mono:
  "paid \<le> paid' \<Longrightarrow> rank (newStatus paid owed) \<le> rank (newStatus paid' owed)"
  by (simp add: newStatus_def)

lemma set_status_twice:
  "set_status iid st' (set_status iid st rows) = set_status iid st' rows"
  by (simp add: set_status_def)

lemma map_inv_id_set_status: "map inv_id (set_status iid st rows) = map inv_id rows"
  by (simp add: set_status_def)

text \<open>One application moves no invoice backwards and keeps the invariants.\<close>

lemma forward_refl: "forward w w"
  by (simp add: forward_def list_all2_same)

lemma forward_same_tables:
  "invoices w' = invoices w \<Longrightarrow> forward w w'"
  by (simp add: forward_def list_all2_same)

lemma handlePayment_forward:
  assumes pk: "invoice_pk w" and na: "not_ahead w"
    and run: "handlePayment fault p w = (r, w')"
  shows "forward w w' \<and> invoice_pk w' \<and> not_ahead w'"
  using run
proof (cases rule: handlePayment_cases)
  case (invalid m)
  with pk na show ?thesis by (simp add: forward_refl)
next
  case (rollback e)
  with pk na show ?thesis
    by (simp add: forward_same_tables invoice_pk_def not_ahead_def)
next
  case (replay eid iid)
  with pk na show ?thesis
    by (simp add: forward_same_tables invoice_pk_def not_ahead_def)
next
  case (new eid iid a invoice)
  let ?paid = "total_paid (payments w) iid"
  let ?st = "newStatus (?paid + a) (total_cents invoice)"
  have inv: "invoices w' = set_status iid ?st (invoices w)"
    and pay: "payments w' = payments w @ [\<lparr>event_id = eid, invoice_id = iid, amount_cents = a,
         payment_type = PaymentReceived\<rparr>]"
    by (simp_all add: new(8))
  have the_one: "i = invoice" if "i \<in> set (invoices w)" "inv_id i = iid" for i
  proof -
    from new(6) have "invoice \<in> set (invoices w)" "inv_id invoice = iid"
      by (auto simp: find_Some_iff in_set_conv_nth)
    with that pk show ?thesis
      by (metis invoice_pk_def distinct_map inj_onD)
  qed
  have old: "rank (status i) \<le> rank (newStatus (total_paid (payments w) (inv_id i)) (total_cents i))"
    if "i \<in> set (invoices w)" for i
    using na that by (simp add: not_ahead_def list_all_iff)
  have fw: "forward w w'"
    unfolding forward_def inv set_status_def list_all2_map2
  proof (rule list_all2_same [THEN iffD2], intro ballI)
    fix i assume i: "i \<in> set (invoices w)"
    show "inv_id (if inv_id i = iid then i\<lparr>status := ?st\<rparr> else i) = inv_id i \<and>
          total_cents (if inv_id i = iid then i\<lparr>status := ?st\<rparr> else i) = total_cents i \<and>
          rank (status i) \<le> rank (status (if inv_id i = iid then i\<lparr>status := ?st\<rparr> else i))"
    proof (cases "inv_id i = iid")
      case True
      with i have "i = invoice" by (rule the_one)
      moreover have "rank (newStatus ?paid (total_cents invoice)) \<le> rank ?st"
        using new(5) by (intro rank_newStatus_mono) simp
      ultimately show ?thesis using old [OF i] True by simp
    qed simp
  qed
  have pk': "invoice_pk w'"
    using pk by (simp add: invoice_pk_def inv map_inv_id_set_status)
  have na': "not_ahead w'"
    unfolding not_ahead_def list_all_iff
  proof
    fix j assume "j \<in> set (invoices w')"
    then obtain i where i: "i \<in> set (invoices w)"
        and j: "j = (if inv_id i = iid then i\<lparr>status := ?st\<rparr> else i)"
      by (auto simp: inv set_status_def)
    show "rank (status j) \<le> rank (newStatus (total_paid (payments w') (inv_id j)) (total_cents j))"
    proof (cases "inv_id i = iid")
      case True
      with i have "i = invoice" by (rule the_one)
      with True j show ?thesis by (simp add: pay total_paid_append)
    next
      case False
      with j old [OF i] show ?thesis by (simp add: pay total_paid_append)
    qed
  qed
  from fw pk' na' show ?thesis by simp
qed

lemma history_forward:
  "invoice_pk w \<Longrightarrow> not_ahead w \<Longrightarrow> successively forward (history steps w)"
proof (induction steps arbitrary: w)
  case Nil
  then show ?case by simp
next
  case (Cons s steps)
  obtain fault p where s: "s = (fault, p)" by (cases s)
  let ?w' = "snd (handlePayment fault p w)"
  have "handlePayment fault p w = (fst (handlePayment fault p w), ?w')" by simp
  from handlePayment_forward [OF Cons.prems this]
  have fw: "forward w ?w'" and inv: "invoice_pk ?w'" "not_ahead ?w'" by simp_all
  have rest: "successively forward (history steps ?w')"
    using inv by (rule Cons.IH)
  have hd: "hd (history steps ?w') = ?w'" "history steps ?w' \<noteq> []"
    by (cases steps; auto)+
  show ?case
    using fw rest hd by (simp add: s successively_Cons)
qed

lemma forward_trans:
  assumes "forward w w'" and "forward w' w''"
  shows "forward w w''"
  using assms unfolding forward_def
  by (rule list_all2_trans [rotated]) auto

lemma handleAll_forward:
  "invoice_pk w \<Longrightarrow> not_ahead w \<Longrightarrow> forward w (handleAll steps w)"
proof (induction steps arbitrary: w)
  case Nil
  then show ?case by (simp add: forward_refl)
next
  case (Cons s steps)
  obtain fault p where s: "s = (fault, p)" by (cases s)
  let ?w' = "snd (handlePayment fault p w)"
  have "handlePayment fault p w = (fst (handlePayment fault p w), ?w')" by simp
  from handlePayment_forward [OF Cons.prems this]
  have fw: "forward w ?w'" and inv: "invoice_pk ?w'" "not_ahead ?w'" by simp_all
  from fw Cons.IH [OF inv] show ?case
    by (simp add: s) (rule forward_trans)
qed

lemma forward_find:
  assumes "list_all2 (\<lambda>i j. inv_id j = inv_id i \<and> total_cents j = total_cents i
                       \<and> rank (status i) \<le> rank (status j)) rows rows'"
    and "find (\<lambda>i. inv_id i = iid) rows = Some i"
  shows "\<exists>j. find (\<lambda>i. inv_id i = iid) rows' = Some j \<and> rank (status i) \<le> rank (status j)"
  using assms by (induction rows rows' rule: list_all2_induct) (auto split: if_splits)

lemma forward_status_of:
  assumes "forward w w'" and "status_of w iid = Some s"
  shows "\<exists>s'. status_of w' iid = Some s' \<and> rank s \<le> rank s'"
proof -
  from assms(2) obtain i where i: "find (\<lambda>i. inv_id i = iid) (invoices w) = Some i" "status i = s"
    by (auto simp: status_of_def)
  from forward_find [OF assms(1) [unfolded forward_def] i(1)] i(2) show ?thesis
    by (auto simp: status_of_def)
qed

lemma rank_Paid: "rank Paid \<le> rank s \<Longrightarrow> s = Paid"
  by (cases s) simp_all

text \<open>
  Claim C5, as the code has it. \<open>handlePayment\<close> writes the status derived from the
  cumulative amount whatever status is stored, so the status of an invoice never moves
  backwards provided it starts no further than its payments warrant: the invoices have
  distinct identifiers (the primary key) and no stored status is ahead of the status
  derived from the payments recorded against its invoice, as holds of an invoice created
  \<^verbatim>\<open>sent\<close>. Then along any sequence of applications, whatever the payloads and
  whichever queries fail, each state follows the one before with every invoice at the
  same or a higher rank in the order \<^verbatim>\<open>sent\<close>, \<^verbatim>\<open>partially_paid\<close>,
  \<^verbatim>\<open>paid\<close>; an invoice ends at a rank no lower than it started, and a
  \<^verbatim>\<open>paid\<close> invoice stays \<^verbatim>\<open>paid\<close>. Without the proviso the claim fails: an
  invoice stored as \<^verbatim>\<open>paid\<close> with no payment recorded is set to
  \<^verbatim>\<open>partially_paid\<close> by its first partial payment (the counterexample below).
\<close>

theorem C5_status_never_regresses:
  assumes "invoice_pk w" and "not_ahead w"
  shows "successively forward (history steps w)
       \<and> (status_of w iid = Some s \<longrightarrow>
            (\<exists>s'. status_of (handleAll steps w) iid = Some s' \<and> rank s \<le> rank s'))
       \<and> (status_of w iid = Some Paid \<longrightarrow> status_of (handleAll steps w) iid = Some Paid)"
proof (intro conjI impI)
  show "successively forward (history steps w)"
    using assms by (rule history_forward)
  have fw: "forward w (handleAll steps w)"
    using assms by (rule handleAll_forward)
  show "\<exists>s'. status_of (handleAll steps w) iid = Some s' \<and> rank s \<le> rank s'"
    if "status_of w iid = Some s"
    using fw that by (rule forward_status_of)
  show "status_of (handleAll steps w) iid = Some Paid" if "status_of w iid = Some Paid"
    using forward_status_of [OF fw that] rank_Paid by blast
qed

lemma history_steps_A:
  "map (\<lambda>w. status_of w ''inv-A'') (history steps_A world_A) =
     [Some Sent, Some PartiallyPaid, Some PartiallyPaid, Some PartiallyPaid, Some Paid, Some Paid]"
  by (simp add: steps_A_def hp_defs payload_def world_A_def invoice_A_def total_paid_def
        newStatus_def no_fault_def status_of_def set_status_def)

theorem C5_status_never_regresses_witness:
  "invoice_pk world_A \<and> not_ahead world_A
   \<and> map (\<lambda>w. status_of w ''inv-A'') (history steps_A world_A) =
     [Some Sent, Some PartiallyPaid, Some PartiallyPaid, Some PartiallyPaid, Some Paid, Some Paid]
   \<and> successively forward (history steps_A world_A)"
proof -
  have pk: "invoice_pk world_A"
    by (simp add: invoice_pk_def world_A_def)
  have na: "not_ahead world_A"
    by (simp add: not_ahead_def world_A_def invoice_A_def total_paid_def newStatus_def)
  from C5_status_never_regresses [OF pk na, of steps_A]
  have "successively forward (history steps_A world_A)" by blast
  with pk na history_steps_A show ?thesis by blast
qed

theorem C5_paid_reverts_counterexample:
  "status_of world_paid ''inv-P'' = Some Paid
   \<and> handlePayment no_fault (payload ''evt-1'' ''inv-P'' 1) world_paid =
       (Inr (Response 201 ''Payment processed''),
        \<lparr>invoices = [\<lparr>inv_id = ''inv-P'', total_cents = 5000, status = PartiallyPaid\<rparr>],
         payments = [\<lparr>event_id = ''evt-1'', invoice_id = ''inv-P'', amount_cents = 1,
                      payment_type = PaymentReceived\<rparr>],
         statements = [BEGIN, SELECT_INVOICE ''inv-P'', INSERT_PAYMENT ''evt-1'',
                       SELECT_TOTAL_PAID ''inv-P'', UPDATE_STATUS ''inv-P'' PartiallyPaid,
                       COMMIT]\<rparr>)
   \<and> status_of (snd (handlePayment no_fault (payload ''evt-1'' ''inv-P'' 1) world_paid))
         ''inv-P'' = Some PartiallyPaid"
  by (simp add: hp_defs payload_def world_paid_def total_paid_def newStatus_def no_fault_def
        status_of_def set_status_def)

section \<open>The final status of an invoice\<close>

lemma total_paid_rows:
  "total_paid (rows @ map (payment_row iid) xs) iid = total_paid rows iid + sum_list (map snd xs)"
  by (induction xs) (simp_all add: total_paid_def payment_row_def)

lemma handleAll_fresh:
  assumes "iid \<noteq> []"
    and "find (\<lambda>i. inv_id i = iid) (invoices w) = Some invoice"
    and "list_all (\<lambda>x. fst x \<noteq> [] \<and> 0 < snd x) xs"
    and "distinct (map fst xs)"
    and "set (map fst xs) \<inter> event_id ` set (payments w) = {}"
  shows "payments (handleAll (map (payment_step iid) xs) w)
           = payments w @ map (payment_row iid) xs
       \<and> invoices (handleAll (map (payment_step iid) xs) w)
           = (if xs = [] then invoices w
              else set_status iid
                     (newStatus (total_paid (payments w) iid + sum_list (map snd xs))
                        (total_cents invoice)) (invoices w))"
  using assms(2-)
proof (induction xs arbitrary: w invoice)
  case Nil
  then show ?case by simp
next
  case (Cons x xs)
  let ?st = "newStatus (total_paid (payments w) iid + snd x) (total_cents invoice)"
  let ?w1 = "\<lparr>invoices = set_status iid ?st (invoices w),
      payments = payments w @ [payment_row iid x],
      statements = statements w @ [BEGIN, SELECT_INVOICE iid, INSERT_PAYMENT (fst x),
         SELECT_TOTAL_PAID iid, UPDATE_STATUS iid ?st, COMMIT]\<rparr>"
  have nf: "\<not> no_fault GetInvoiceById" "\<not> no_fault InsertPayment"
           "\<not> no_fault GetTotalPaid" "\<not> no_fault UpdateInvoiceStatus"
    by (simp_all add: no_fault_def)
  from Cons.prems have x: "fst x \<noteq> []" "0 < snd x" "fst x \<notin> event_id ` set (payments w)"
    by auto
  have one: "handlePayment no_fault (payload (fst x) iid (snd x)) w
      = (Inr (Response 201 ''Payment processed''), ?w1)"
    unfolding handlePayment_new [OF x(1) assms(1) x(2) Cons.prems(1) x(3) nf]
    by (simp add: payment_row_def)
  have id: "inv_id invoice = iid"
    using Cons.prems(1) by (auto simp: find_Some_iff)
  have found1: "find (\<lambda>i. inv_id i = iid) (invoices ?w1) = Some (invoice\<lparr>status := ?st\<rparr>)"
    using Cons.prems(1) id by (simp add: find_set_status)
  have fresh1: "set (map fst xs) \<inter> event_id ` set (payments ?w1) = {}"
    using Cons.prems(3,4) by (auto simp: payment_row_def)
  from Cons.prems have rest: "list_all (\<lambda>x. fst x \<noteq> [] \<and> 0 < snd x) xs" "distinct (map fst xs)"
    by simp_all
  note IH = Cons.IH [OF found1 rest fresh1]
  have paid1: "total_paid (payments w @ [payment_row iid x]) iid
      = total_paid (payments w) iid + snd x"
    by (simp add: total_paid_append payment_row_def)
  show ?case
    using IH by (simp add: payment_step_def one paid1 set_status_twice add.assoc)
qed

text \<open>
  Claim C2. The invoice \<open>iid\<close> exists; \<open>xs\<close> lists payments against it, each with a
  non-empty event identifier and a strictly positive amount, the event identifiers
  distinct and not yet recorded; the payments are applied in the order of \<open>xs\<close>, with
  no fault of the database. Either \<open>xs\<close> is not empty, or the stored status is the one
  derived from the payments recorded so far (the invariant of the data model). Then the
  cumulative amount afterwards is the amount before plus the amounts of \<open>xs\<close>, and the
  status of the invoice is \<^verbatim>\<open>paid\<close> iff the cumulative amount is at least the total
  owed, \<^verbatim>\<open>partially_paid\<close> iff it is strictly between 0 and the total owed, and
  \<^verbatim>\<open>sent\<close> otherwise. Applying the same payments in any other order ends with the
  same status.
\<close>

theorem C2_final_status:
  assumes "iid \<noteq> []"
    and "find (\<lambda>i. inv_id i = iid) (invoices w) = Some invoice"
    and "list_all (\<lambda>x. fst x \<noteq> [] \<and> 0 < snd x) xs"
    and "distinct (map fst xs)"
    and "set (map fst xs) \<inter> event_id ` set (payments w) = {}"
    and "xs \<noteq> [] \<or> status invoice
           = newStatus (total_paid (payments w) iid) (total_cents invoice)"
    and "w' = handleAll (map (payment_step iid) xs) w"
    and "paid = total_paid (payments w') iid"
  shows "paid = total_paid (payments w) iid + sum_list (map snd xs)
       \<and> (\<exists>st. status_of w' iid = Some st
            \<and> (st = Paid \<longleftrightarrow> total_cents invoice \<le> paid)
            \<and> (st = PartiallyPaid \<longleftrightarrow> 0 < paid \<and> paid < total_cents invoice)
            \<and> (st = Sent \<longleftrightarrow> \<not> total_cents invoice \<le> paid
                               \<and> \<not> (0 < paid \<and> paid < total_cents invoice)))
       \<and> (\<forall>ys. mset ys = mset xs \<longrightarrow>
             status_of (handleAll (map (payment_step iid) ys) w) iid = status_of w' iid)"
proof -
  have id: "inv_id invoice = iid"
    using assms(2) by (auto simp: find_Some_iff)
  have final: "status_of (handleAll (map (payment_step iid) ys) w) iid
      = Some (newStatus (total_paid (payments w) iid + sum_list (map snd xs)) (total_cents invoice))"
    if "mset ys = mset xs" for ys
  proof -
    from that have "set ys = set xs" by (rule mset_eq_setD)
    with assms(3,5) have ok: "list_all (\<lambda>x. fst x \<noteq> [] \<and> 0 < snd x) ys"
        "set (map fst ys) \<inter> event_id ` set (payments w) = {}"
      by (simp_all add: list_all_iff)
    from that have "mset (map fst ys) = mset (map fst xs)" by simp
    with assms(4) have dist: "distinct (map fst ys)"
      using mset_eq_imp_distinct_iff by blast
    from that have "sum_mset (mset (map snd ys)) = sum_mset (mset (map snd xs))" by simp
    then have sum: "sum_list (map snd ys) = sum_list (map snd xs)"
      by (simp only: sum_mset_sum_list)
    from that have empty: "ys = [] \<longleftrightarrow> xs = []"
      by (metis mset_zero_iff)
    from handleAll_fresh [OF assms(1,2) ok(1) dist ok(2)] assms(2,6) id show ?thesis
      by (auto simp: status_of_def find_set_status sum empty)
  qed
  have paid: "paid = total_paid (payments w) iid + sum_list (map snd xs)"
    using handleAll_fresh [OF assms(1-5)] by (simp add: assms(7,8) total_paid_rows)
  have here: "status_of w' iid = Some (newStatus paid (total_cents invoice))"
    using final [of xs] by (simp add: assms(7) paid)
  have "\<exists>st. status_of w' iid = Some st
            \<and> (st = Paid \<longleftrightarrow> total_cents invoice \<le> paid)
            \<and> (st = PartiallyPaid \<longleftrightarrow> 0 < paid \<and> paid < total_cents invoice)
            \<and> (st = Sent \<longleftrightarrow> \<not> total_cents invoice \<le> paid
                               \<and> \<not> (0 < paid \<and> paid < total_cents invoice))"
    unfolding here by (simp add: newStatus_def)
  moreover have "\<forall>ys. mset ys = mset xs \<longrightarrow>
             status_of (handleAll (map (payment_step iid) ys) w) iid = status_of w' iid"
    using final here paid by simp
  ultimately show ?thesis using paid by blast
qed

theorem C2_final_status_witness:
  "status_of (handleAll (map (payment_step ''inv-A'') [(''evt-1'', 3000), (''evt-2'', 2000)])
       world_A) ''inv-A'' = Some Paid
   \<and> status_of (handleAll (map (payment_step ''inv-A'') [(''evt-2'', 2000), (''evt-1'', 3000)])
       world_A) ''inv-A'' = Some Paid
   \<and> total_paid (payments (handleAll (map (payment_step ''inv-A'')
       [(''evt-1'', 3000), (''evt-2'', 2000)]) world_A)) ''inv-A'' = 5000"
proof -
  let ?xs = "[(''evt-1'', 3000), (''evt-2'', 2000)] :: (string \<times> int) list"
  let ?ys = "[(''evt-2'', 2000), (''evt-1'', 3000)] :: (string \<times> int) list"
  let ?w' = "handleAll (map (payment_step ''inv-A'') ?xs) world_A"
  have h: "''inv-A'' \<noteq> []"
      "find (\<lambda>i. inv_id i = ''inv-A'') (invoices world_A) = Some invoice_A"
      "list_all (\<lambda>x. fst x \<noteq> [] \<and> 0 < snd x) ?xs"
      "distinct (map fst ?xs)"
      "set (map fst ?xs) \<inter> event_id ` set (payments world_A) = {}"
      "?xs \<noteq> [] \<or> status invoice_A
           = newStatus (total_paid (payments world_A) ''inv-A'') (total_cents invoice_A)"
    by (simp_all add: world_A_def invoice_A_def)
  note C2 = C2_final_status [OF h refl refl]
  from C2 have paid: "total_paid (payments ?w') ''inv-A'' = 5000"
    by (simp add: world_A_def total_paid_def)
  from C2 obtain st where st: "status_of ?w' ''inv-A'' = Some st"
      "st = Paid \<longleftrightarrow> total_cents invoice_A \<le> total_paid (payments ?w') ''inv-A''"
    by blast
  from st paid have one: "status_of ?w' ''inv-A'' = Some Paid"
    by (simp add: invoice_A_def)
  have "mset ?ys = mset ?xs" by (simp add: add_mset_commute)
  with C2 have "status_of (handleAll (map (payment_step ''inv-A'') ?ys) world_A) ''inv-A''
      = status_of ?w' ''inv-A''"
    by blast
  with one paid show ?thesis by simp
qed

section \<open>Facts about the queue\<close>

lemmas queue_defs = enqueue_def processNext_def processNext_resume_def Let_def

lemma called_append: "called (t @ u) = called t @ called u"
  by (induction t rule: called.induct) simp_all

lemma monitor_of_append: "monitor_of (t @ u) = foldl observe (monitor_of t) u"
  by (simp add: monitor_of_def)

lemma observe_Violation: "observe Violation x = Violation"
  by (cases x) simp_all

lemma foldl_observe_Violation: "foldl observe Violation t = Violation"
  by (induction t) (simp_all add: observe_Violation)

lemma monitor_of_call:
  assumes "monitor_of (t1 @ HandlerCalled b # t2) \<noteq> Violation"
  shows "monitor_of t1 = Idle"
proof (rule ccontr)
  assume "monitor_of t1 \<noteq> Idle"
  then have "observe (monitor_of t1) (HandlerCalled b) = Violation"
    by (cases "monitor_of t1") simp_all
  then have "monitor_of (t1 @ HandlerCalled b # t2) = Violation"
    by (simp add: monitor_of_append foldl_observe_Violation)
  with assms show False by simp
qed

lemma queue_ok_new: "queue_ok EventQueue_new"
  by (simp add: queue_ok_def EventQueue_new_def monitor_of_def)

lemma queue_ok_step: "queue_ok q \<Longrightarrow> queue_ok (step a q)"
proof (cases a)
  case (Enqueue event)
  assume "queue_ok q"
  with Enqueue show ?thesis
    by (cases "inflight q")
       (auto simp: queue_ok_def queue_defs monitor_of_append split: list.splits)
next
  case (Settle out)
  assume "queue_ok q"
  with Settle show ?thesis
    by (cases "inflight q"; cases out)
       (auto simp: queue_ok_def queue_defs monitor_of_append split: list.splits)
qed

lemma queue_ok_exec: "queue_ok q \<Longrightarrow> queue_ok (exec as q)"
  by (induction as arbitrary: q) (simp_all add: queue_ok_step)

lemma step_fifo:
  "called (trace (step a q)) @ queue (step a q) = called (trace q) @ queue q @ accepted [a] q"
proof (cases a)
  case (Enqueue event)
  then show ?thesis
    by (auto simp: queue_defs called_append split: list.splits)
next
  case (Settle out)
  then show ?thesis
    by (cases "inflight q"; cases out)
       (auto simp: queue_defs called_append split: list.splits)
qed

lemma accepted_Cons: "accepted (a # as) q = accepted [a] q @ accepted as (step a q)"
  by (cases a) simp_all

lemma exec_fifo:
  "called (trace (exec as q)) @ queue (exec as q) = called (trace q) @ queue q @ accepted as q"
proof (induction as arbitrary: q)
  case Nil
  then show ?case by simp
next
  case (Cons a as)
  show ?case
    by (simp add: Cons.IH step_fifo accepted_Cons [of a as])
qed

section \<open>Order of processing\<close>

text \<open>
  Claim C4. After any run of calls of \<open>enqueue\<close> and settlements of the handler on a
  new queue: the trace never has the handler called while an earlier call has not been
  reported as ended (the monitor is \<open>Idle\<close> or \<open>Busy\<close> with the event in flight,
  never \<open>Violation\<close>), so at most one call is in flight and the flag
  \<^verbatim>\<open>processing\<close> is set exactly then; the events handed to the handler so far,
  followed by the backlog, are the accepted events in the order they were enqueued; and
  at each call of the handler, on an event \<open>b\<close>, every earlier call has ended and the
  events called up to \<open>b\<close> are the first accepted ones, in their order.
\<close>

theorem C4_fifo_one_at_a_time:
  assumes "q = exec as EventQueue_new"
  shows "monitor_of (trace q) = (case inflight q of None \<Rightarrow> Idle | Some event \<Rightarrow> Busy event)
       \<and> (processing q \<longleftrightarrow> inflight q \<noteq> None)
       \<and> called (trace q) @ queue q = accepted as EventQueue_new
       \<and> (trace q = t1 @ HandlerCalled b # t2 \<longrightarrow>
            monitor_of t1 = Idle
            \<and> called t1 @ [b] = take (Suc (length (called t1))) (accepted as EventQueue_new))"
proof -
  have ok: "queue_ok q"
    unfolding assms by (rule queue_ok_exec) (rule queue_ok_new)
  have fifo: "called (trace q) @ queue q = accepted as EventQueue_new"
    unfolding assms using exec_fifo [of as EventQueue_new]
    by (simp add: EventQueue_new_def)
  have "monitor_of t1 = Idle
      \<and> called t1 @ [b] = take (Suc (length (called t1))) (accepted as EventQueue_new)"
    if t: "trace q = t1 @ HandlerCalled b # t2"
  proof
    from ok have "monitor_of (trace q) \<noteq> Violation"
      by (auto simp: queue_ok_def split: option.splits)
    then show "monitor_of t1 = Idle"
      unfolding t by (rule monitor_of_call)
    have "accepted as EventQueue_new = (called t1 @ [b]) @ called t2 @ queue q"
      using fifo by (simp add: t called_append)
    then show "called t1 @ [b] = take (Suc (length (called t1))) (accepted as EventQueue_new)"
      by simp
  qed
  with ok fifo show ?thesis
    by (simp add: queue_ok_def)
qed

theorem C4_fifo_one_at_a_time_witness:
  "trace (exec [Enqueue event_A, Enqueue event_B, Settle (Rejected StorageError), Settle Resolved]
      EventQueue_new)
     = [HandlerCalled event_A, LogError ''evt-1'' StorageError,
        HandlerCalled event_B, LogProcessed ''evt-2'']
   \<and> monitor_of [HandlerCalled event_A, LogError ''evt-1'' StorageError] = Idle
   \<and> accepted [Enqueue event_A, Enqueue event_B, Settle (Rejected StorageError), Settle Resolved]
        EventQueue_new = [event_A, event_B]"
proof -
  let ?as = "[Enqueue event_A, Enqueue event_B, Settle (Rejected StorageError), Settle Resolved]"
  let ?t1 = "[HandlerCalled event_A, LogError ''evt-1'' StorageError]"
  have id: "getEventId event_A = ''evt-1''" "getEventId event_B = ''evt-2''"
    by (simp_all add: getEventId_def event_A_def event_B_def payload_def)
  have tr: "trace (exec ?as EventQueue_new) = ?t1 @ HandlerCalled event_B # [LogProcessed ''evt-2'']"
    by (simp add: queue_defs EventQueue_new_def id)
  have acc: "accepted ?as EventQueue_new = [event_A, event_B]"
    by (simp add: queue_defs EventQueue_new_def id)
  from C4_fifo_one_at_a_time [OF refl, of ?as ?t1 event_B "[LogProcessed ''evt-2'']"] tr
  have "monitor_of ?t1 = Idle"
    by blast
  with tr acc show ?thesis by simp
qed

section \<open>Enqueueing\<close>

text \<open>
  Claim C7. When the identifier of the event is in the processed-set, \<open>enqueue\<close>
  changes nothing but the console: backlog, flag, event in flight and processed-set stay
  as they are, and the handler is not called. When it is not, \<open>enqueue\<close> is
  \<^verbatim>\<open>processNext\<close> after the event has been appended to the backlog: a busy queue
  keeps the event at the end of its backlog, and an idle queue becomes busy at once, with
  the head of the extended backlog handed to the handler.
\<close>

theorem C7_enqueue:
  "(getEventId event \<in> processedEvents q \<longrightarrow>
      enqueue event q = q\<lparr>trace := trace q @ [LogSkipping (getEventId event)]\<rparr>
      \<and> called (trace (enqueue event q)) = called (trace q))
   \<and> (getEventId event \<notin> processedEvents q \<longrightarrow>
      enqueue event q = processNext (q\<lparr>queue := queue q @ [event]\<rparr>)
      \<and> (processing q \<longrightarrow> enqueue event q = q\<lparr>queue := queue q @ [event]\<rparr>)
      \<and> (\<not> processing q \<longrightarrow>
            enqueue event q =
              q\<lparr>processing := True, queue := tl (queue q @ [event]),
                inflight := Some (hd (queue q @ [event])),
                trace := trace q @ [HandlerCalled (hd (queue q @ [event]))]\<rparr>))"
  by (cases "queue q") (auto simp: queue_defs called_append)

theorem C7_enqueue_witness:
  "getEventId event_A \<notin> processedEvents EventQueue_new \<and> \<not> processing EventQueue_new
   \<and> enqueue event_A EventQueue_new =
       \<lparr>queue = [], processing = True, processedEvents = {}, inflight = Some event_A,
        trace = [HandlerCalled event_A]\<rparr>
   \<and> getEventId event_A \<in> processedEvents queue_done
   \<and> enqueue event_A queue_done =
       \<lparr>queue = [], processing = False, processedEvents = {''evt-1''}, inflight = None,
        trace = [HandlerCalled event_A, LogProcessed ''evt-1'', LogSkipping ''evt-1'']\<rparr>"
proof -
  have id: "getEventId event_A = ''evt-1''"
    by (simp add: getEventId_def event_A_def payload_def)
  have new: "getEventId event_A \<notin> processedEvents EventQueue_new" "\<not> processing EventQueue_new"
    by (simp_all add: EventQueue_new_def)
  have old: "getEventId event_A \<in> processedEvents queue_done"
    by (simp add: queue_done_def id)
  from C7_enqueue [of event_A EventQueue_new] new
  have one: "enqueue event_A EventQueue_new =
      EventQueue_new\<lparr>processing := True, queue := tl (queue EventQueue_new @ [event_A]),
        inflight := Some (hd (queue EventQueue_new @ [event_A])),
        trace := trace EventQueue_new @ [HandlerCalled (hd (queue EventQueue_new @ [event_A]))]\<rparr>"
    by blast
  from C7_enqueue [of event_A queue_done] old
  have two: "enqueue event_A queue_done =
      queue_done\<lparr>trace := trace queue_done @ [LogSkipping (getEventId event_A)]\<rparr>"
    by blast
  from new old show ?thesis
    unfolding one two by (simp add: EventQueue_new_def queue_done_def id)
qed

section \<open>A failing handler\<close>

text \<open>
  Claim C8. The handler was called on \<open>event\<close> and rejects with \<open>err\<close>. When
  \<^verbatim>\<open>processNext\<close> resumes, it writes the error line for the identifier of the event
  to the console, leaves the processed-set as it is, and puts nothing back on the
  backlog: the backlog loses its head, if it has one, and that head is the next event
  handed to the handler; with an empty backlog the queue goes idle. The event that failed
  is in no field of the queue afterwards unless a copy of it was waiting. \<open>enqueue\<close>
  returned before the handler settled and its result has no place for an error.
\<close>

theorem C8_handler_failure:
  assumes "inflight q = Some event"
    and "q' = processNext_resume (Rejected err) q"
  shows "processedEvents q' = processedEvents q
       \<and> isEventProcessed (getEventId event) q' = isEventProcessed (getEventId event) q
       \<and> trace q' = trace q @ LogError (getEventId event) err
                       # (case queue q of [] \<Rightarrow> [] | e # rest \<Rightarrow> [HandlerCalled e])
       \<and> queue q' = tl (queue q)
       \<and> inflight q' = (case queue q of [] \<Rightarrow> None | e # rest \<Rightarrow> Some e)
       \<and> processing q' = (queue q \<noteq> [])"
  using assms
  by (cases "queue q") (simp_all add: queue_defs isEventProcessed_def)

theorem C8_handler_failure_witness:
  "inflight queue_busy = Some event_A
   \<and> processNext_resume (Rejected StorageError) queue_busy =
       \<lparr>queue = [], processing = True, processedEvents = {}, inflight = Some event_B,
        trace = [HandlerCalled event_A, LogError ''evt-1'' StorageError, HandlerCalled event_B]\<rparr>
   \<and> \<not> isEventProcessed ''evt-1'' (processNext_resume (Rejected StorageError) queue_busy)"
proof -
  let ?q' = "processNext_resume (Rejected StorageError) queue_busy"
  have id: "getEventId event_A = ''evt-1''"
    by (simp add: getEventId_def event_A_def payload_def)
  have h: "inflight queue_busy = Some event_A"
    by (simp add: queue_busy_def)
  have before: "\<not> isEventProcessed ''evt-1'' queue_busy"
    by (simp add: isEventProcessed_def queue_busy_def)
  have result: "?q' =
       \<lparr>queue = [], processing = True, processedEvents = {}, inflight = Some event_B,
        trace = [HandlerCalled event_A, LogError ''evt-1'' StorageError, HandlerCalled event_B]\<rparr>"
    by (simp add: queue_defs queue_busy_def id)
  from C8_handler_failure [OF h refl, of StorageError] before
  have "\<not> isEventProcessed ''evt-1'' ?q'"
    by (simp add: id)
  with h result show ?thesis by blast
qed

section \<open>What the processed-set does not cover\<close>



end
